theory Spec2Isabelle
  imports Main "HOL-Library.Word"
begin

section \<open>The staging table of mvccdb (common/mvccdb/staging\_table.go)\<close>

text \<open>
  The embedding follows the Go source function by function.

  \<^item> A transaction identifier is an \<open>interface{}\<close> value: \<open>None\<close> is Go's \<open>nil\<close>,
    \<open>Some t\<close> any other comparable value.
  \<^item> A \<open>[]byte\<close> is a list of 8-bit words; the \<open>nil\<close> slice and the empty slice are both
    \<open>[]\<close> (\<open>bytes.Compare\<close> does not tell them apart).
  \<^item> The version counters are Go \<open>int\<close>s. They start at 0 and the only arithmetic on them
    is \<open>+ 1\<close> in \<open>IncrVersionizedValueItem\<close>, so they are modelled as unbounded
    integers: the 64-bit counter wraps only after \<open>2^63 - 1\<close> increments of one key.
  \<^item> A Go map is a partial function. The maps of the table are reference values: the
    function \<open>getVersionizedValuesOfTid\<close> returns the map object that lives in the table,
    and writes through it change the table. The model therefore returns the updated table
    and addresses the map by the transaction identifier (\<open>valuesOf\<close>, \<open>storeValue\<close>);
    for \<open>nil\<close> that map is the final map itself.
  \<^item> The entries are held by pointer. No pointer is ever stored in two slots (every
    constructor allocates), so an update through the pointer is an update of the one slot
    that holds it.
  \<^item> The two mutexes are not modelled: the operations are taken one at a time.
  \<^item> A nil-pointer dereference is the outcome \<open>NilPanic\<close>.
\<close>

type_synonym byte = "8 word"

datatype error =
    ErrStagingTableKeyConfliction
  | ErrKeyNotFound
  | ErrOther string

datatype 'a outcome = Return 'a | Fail error | NilPanic

record 't VersionizedValueItem =
  tid :: "'t option"
  key :: "byte list"
  val :: "byte list"
  old :: int
  new :: int
  deleted :: bool
  dirty :: bool

type_synonym 't stagingValuesMap = "string \<rightharpoonup> 't VersionizedValueItem"

text \<open>
  \<open>storage.Storage\<close> is an interface of another package; only its method
  \<open>Get(key) ([]byte, error)\<close> is used. It is a field of the table, as in the source:
  a function from the key to the pair of results, \<open>None\<close> being the \<open>nil\<close> error.
\<close>

record 't StagingTable =
  storage :: "byte list \<Rightarrow> byte list \<times> error option"
  allVersionizedValues :: "'t option \<rightharpoonup> 't stagingValuesMap"
  finalVersionizedValue :: "'t stagingValuesMap"

subsection \<open>Key canonicalisation\<close>

definition hexDigit :: "nat \<Rightarrow> char" where
  "hexDigit n = ''0123456789abcdef'' ! n"

text \<open>
  Modelled from the spec: \<open>byteutils.Hex\<close> (package util/byteutils) is not part of the
  examined source. The spec says that keys are converted to a canonical textual form
  before they are used as a mapping key; the name says which one: two lower-case
  hexadecimal digits per byte. No theorem below uses more than that it is a function.
\<close>

definition Hex :: "byte list \<Rightarrow> string" where
  "Hex bs = concat (map (\<lambda>b. [hexDigit (unat b div 16), hexDigit (unat b mod 16)]) bs)"

subsection \<open>Entries\<close>

definition isDefault :: "'t VersionizedValueItem \<Rightarrow> bool" where
  "isDefault valueItem \<longleftrightarrow> tid valueItem = None \<and> new valueItem = 0 \<and> old valueItem = 0"

definition NewDefaultVersionizedValueItem ::
  "byte list \<Rightarrow> byte list \<Rightarrow> 't VersionizedValueItem" where
  "NewDefaultVersionizedValueItem k v =
     \<lparr>tid = None, key = k, val = v, old = 0, new = 0, deleted = False, dirty = False\<rparr>"

definition IncrVersionizedValueItem ::
  "'t option \<Rightarrow> 't VersionizedValueItem \<Rightarrow> 't VersionizedValueItem" where
  "IncrVersionizedValueItem t oldValue =
     \<lparr>tid = t, key = key oldValue, val = val oldValue, old = new oldValue,
      new = new oldValue + 1, deleted = deleted oldValue, dirty = False\<rparr>"

definition CloneForFinal :: "'t VersionizedValueItem \<Rightarrow> 't VersionizedValueItem" where
  "CloneForFinal valueItem =
     \<lparr>tid = tid valueItem, key = key valueItem, val = val valueItem, old = old valueItem,
      new = new valueItem, deleted = deleted valueItem, dirty = True\<rparr>"

subsection \<open>The table and its maps\<close>

definition NewStagingTable :: "(byte list \<Rightarrow> byte list \<times> error option) \<Rightarrow> 't StagingTable" where
  "NewStagingTable st =
     \<lparr>storage = st, allVersionizedValues = Map.empty, finalVersionizedValue = Map.empty\<rparr>"

text \<open>
  \<open>getVersionizedValuesOfTid\<close>: for \<open>nil\<close> the final map; otherwise the map of the
  transaction, created empty and registered when there is none. The returned table is the
  table after the call; the map is then read with \<open>valuesOf\<close> and written with
  \<open>storeValue\<close>.
\<close>

definition getVersionizedValuesOfTid :: "'t StagingTable \<Rightarrow> 't option \<Rightarrow> 't StagingTable" where
  "getVersionizedValuesOfTid tbl t =
     (case t of
        None \<Rightarrow> tbl
      | Some _ \<Rightarrow>
          (case allVersionizedValues tbl t of
             None \<Rightarrow> tbl\<lparr>allVersionizedValues := (allVersionizedValues tbl)(t \<mapsto> Map.empty)\<rparr>
           | Some _ \<Rightarrow> tbl))"

definition valuesOf :: "'t StagingTable \<Rightarrow> 't option \<Rightarrow> 't stagingValuesMap" where
  "valuesOf tbl t =
     (case t of
        None \<Rightarrow> finalVersionizedValue tbl
      | Some _ \<Rightarrow> (case allVersionizedValues tbl t of None \<Rightarrow> Map.empty | Some m \<Rightarrow> m))"

definition storeValue ::
  "'t StagingTable \<Rightarrow> 't option \<Rightarrow> string \<Rightarrow> 't VersionizedValueItem \<Rightarrow> 't StagingTable" where
  "storeValue tbl t keyStr valueItem =
     (case t of
        None \<Rightarrow> tbl\<lparr>finalVersionizedValue := (finalVersionizedValue tbl)(keyStr \<mapsto> valueItem)\<rparr>
      | Some _ \<Rightarrow>
          tbl\<lparr>allVersionizedValues :=
                (allVersionizedValues tbl)(t \<mapsto> (valuesOf tbl t)(keyStr \<mapsto> valueItem))\<rparr>)"

definition getAndIncrValueFromFinalVersionValue ::
  "'t StagingTable \<Rightarrow> 't option \<Rightarrow> string \<Rightarrow> byte list \<Rightarrow>
     't VersionizedValueItem outcome \<times> 't StagingTable" where
  "getAndIncrValueFromFinalVersionValue tbl t keyStr k =
     (case finalVersionizedValue tbl keyStr of
        Some latestValue \<Rightarrow> (Return (IncrVersionizedValueItem t latestValue), tbl)
      | None \<Rightarrow>
          (case storage tbl k of
             (v, err) \<Rightarrow>
               (case err of
                  None \<Rightarrow>
                    (Return (IncrVersionizedValueItem t (NewDefaultVersionizedValueItem k v)),
                     tbl\<lparr>finalVersionizedValue :=
                           (finalVersionizedValue tbl)(keyStr \<mapsto> NewDefaultVersionizedValueItem k v)\<rparr>)
                | Some e \<Rightarrow>
                    if e \<noteq> ErrKeyNotFound then (Fail e, tbl)
                    else
                      (Return (IncrVersionizedValueItem t (NewDefaultVersionizedValueItem k v)),
                       tbl\<lparr>finalVersionizedValue :=
                             (finalVersionizedValue tbl)(keyStr \<mapsto> NewDefaultVersionizedValueItem k v)\<rparr>))))"

definition getVersionizedValueForUpdate ::
  "'t StagingTable \<Rightarrow> 't option \<Rightarrow> byte list \<Rightarrow>
     't VersionizedValueItem outcome \<times> 't StagingTable" where
  "getVersionizedValueForUpdate tbl t k =
     (let keyStr = Hex k;
          tbl1 = getVersionizedValuesOfTid tbl t
      in case valuesOf tbl1 t keyStr of
           Some valueItem \<Rightarrow> (Return valueItem, tbl1)
         | None \<Rightarrow>
             (case getAndIncrValueFromFinalVersionValue tbl1 t keyStr k of
                (Return valueItem, tbl2) \<Rightarrow> (Return valueItem, storeValue tbl2 t keyStr valueItem)
              | (Fail e, tbl2) \<Rightarrow> (Fail e, tbl2)
              | (NilPanic, tbl2) \<Rightarrow> (NilPanic, tbl2)))"

subsection \<open>The public operations\<close>

definition Get ::
  "'t StagingTable \<Rightarrow> 't option \<Rightarrow> byte list \<Rightarrow>
     't VersionizedValueItem outcome \<times> 't StagingTable" where
  "Get tbl t k = getVersionizedValueForUpdate tbl t k"

definition Put ::
  "'t StagingTable \<Rightarrow> 't option \<Rightarrow> byte list \<Rightarrow> byte list \<Rightarrow>
     't VersionizedValueItem outcome \<times> 't StagingTable" where
  "Put tbl t k v =
     (case getVersionizedValueForUpdate tbl t k of
        (Return valueItem, tbl1) \<Rightarrow>
          (let value1 = valueItem\<lparr>dirty := dirty valueItem \<or> val valueItem \<noteq> v\<rparr>;
               value2 = value1\<lparr>val := v\<rparr>
           in (Return value2, storeValue tbl1 t (Hex k) value2))
      | (Fail e, tbl1) \<Rightarrow> (Fail e, tbl1)
      | (NilPanic, tbl1) \<Rightarrow> (NilPanic, tbl1))"

definition Set_item ::
  "'t StagingTable \<Rightarrow> 't option \<Rightarrow> byte list \<Rightarrow> byte list \<Rightarrow> bool \<Rightarrow> bool \<Rightarrow>
     't VersionizedValueItem outcome \<times> 't StagingTable" where
  "Set_item tbl t k v del drt =
     (case getVersionizedValueForUpdate tbl t k of
        (Return valueItem, tbl1) \<Rightarrow>
          (let value1 = valueItem\<lparr>val := v, deleted := del, dirty := drt\<rparr>
           in (Return value1, storeValue tbl1 t (Hex k) value1))
      | (Fail e, tbl1) \<Rightarrow> (Fail e, tbl1)
      | (NilPanic, tbl1) \<Rightarrow> (NilPanic, tbl1))"

definition Del ::
  "'t StagingTable \<Rightarrow> 't option \<Rightarrow> byte list \<Rightarrow>
     't VersionizedValueItem outcome \<times> 't StagingTable" where
  "Del tbl t k =
     (case getVersionizedValueForUpdate tbl t k of
        (Return valueItem, tbl1) \<Rightarrow>
          (let value1 = valueItem\<lparr>deleted := True, dirty := True\<rparr>
           in (Return value1, storeValue tbl1 t (Hex k) value1))
      | (Fail e, tbl1) \<Rightarrow> (Fail e, tbl1)
      | (NilPanic, tbl1) \<Rightarrow> (NilPanic, tbl1))"

definition Purge :: "'t StagingTable \<Rightarrow> 't option \<Rightarrow> 't StagingTable" where
  "Purge tbl t =
     (case t of
        None \<Rightarrow> tbl
      | Some _ \<Rightarrow> tbl\<lparr>allVersionizedValues := (allVersionizedValues tbl)(t := None)\<rparr>)"

subsection \<open>MergeToFinal\<close>

text \<open>
  Go visits the keys of a map in an order that it chooses anew for every \<open>range\<close>
  statement. The two loops over \<open>tidValues\<close> therefore take the order of their visits as
  an argument: a list of the keys of the map. A key of the list that the map does not
  hold is passed over (a \<open>range\<close> never yields one).

  First loop (``check version''): the accumulator is the pair of \<open>dependentTids\<close> (a Go
  map used as a set) and \<open>conflictKeys\<close>; the result is \<open>None\<close> when
  \<open>finalValues[keyStr]\<close> is \<open>nil\<close> and the loop dereferences it.
\<close>

fun checkVersion ::
  "'t StagingTable \<Rightarrow> 't option \<Rightarrow> string list \<Rightarrow>
     't option set \<times> (string \<rightharpoonup> 't option) \<Rightarrow>
     ('t option set \<times> (string \<rightharpoonup> 't option)) option" where
  "checkVersion tbl t [] acc = Some acc"
| "checkVersion tbl t (keyStr # rest) (dependentTids, conflictKeys) =
     (case valuesOf tbl t keyStr of
        None \<Rightarrow> checkVersion tbl t rest (dependentTids, conflictKeys)
      | Some tidValueItem \<Rightarrow>
          (case finalVersionizedValue tbl keyStr of
             None \<Rightarrow> None
           | Some finalValueItem \<Rightarrow>
               if old tidValueItem \<noteq> new finalValueItem
               then checkVersion tbl t rest
                      (dependentTids, conflictKeys(keyStr \<mapsto> tid finalValueItem))
               else if isDefault finalValueItem
               then checkVersion tbl t rest (dependentTids, conflictKeys)
               else checkVersion tbl t rest
                      (insert (tid finalValueItem) dependentTids, conflictKeys)))"

text \<open>
  Second loop (``merge to final''). The entry is read from the live map: for the \<open>nil\<close>
  identifier the map that is ranged over is the map that is written.
\<close>

fun mergeDirty :: "'t StagingTable \<Rightarrow> 't option \<Rightarrow> string list \<Rightarrow> 't StagingTable" where
  "mergeDirty tbl t [] = tbl"
| "mergeDirty tbl t (keyStr # rest) =
     (case valuesOf tbl t keyStr of
        None \<Rightarrow> mergeDirty tbl t rest
      | Some tidValueItem \<Rightarrow>
          if \<not> dirty tidValueItem then mergeDirty tbl t rest
          else mergeDirty
                 (tbl\<lparr>finalVersionizedValue :=
                        (finalVersionizedValue tbl)(keyStr \<mapsto> CloneForFinal tidValueItem)\<rparr>)
                 t rest)"

text \<open>
  The result slice \<open>tids\<close> lists the keys of \<open>dependentTids\<close>, each once, in an order the
  runtime chooses; the model returns the set.
\<close>

definition MergeToFinal ::
  "'t StagingTable \<Rightarrow> 't option \<Rightarrow> string list \<Rightarrow> string list \<Rightarrow>
     't option set outcome \<times> 't StagingTable" where
  "MergeToFinal tbl t order1 order2 =
     (let tbl1 = getVersionizedValuesOfTid tbl t
      in case checkVersion tbl1 t order1 ({}, Map.empty) of
           None \<Rightarrow> (NilPanic, tbl1)
         | Some (dependentTids, conflictKeys) \<Rightarrow>
             if conflictKeys \<noteq> Map.empty
             then (Fail ErrStagingTableKeyConfliction, tbl1)
             else (Return dependentTids, mergeDirty tbl1 t order2))"

text \<open>An order of visits of a \<open>range\<close> over a map: every key of the map, once.\<close>

definition rangeOrder :: "('k \<rightharpoonup> 'v) \<Rightarrow> 'k list \<Rightarrow> bool" where
  "rangeOrder m ks \<longleftrightarrow> distinct ks \<and> set ks = dom m"

subsection \<open>Notions used to state the properties\<close>

text \<open>
  The store answered the read, with a value or with ``not found'': the condition under
  which line 235 of the source does not return the error.
\<close>

definition storeReadable :: "byte list \<times> error option \<Rightarrow> bool" where
  "storeReadable r \<longleftrightarrow> snd r = None \<or> snd r = Some ErrKeyNotFound"

text \<open>A backing store without any key, as in the end-to-end scenario of the spec.\<close>

definition emptyStorage :: "byte list \<Rightarrow> byte list \<times> error option" where
  "emptyStorage k = ([], Some ErrKeyNotFound)"

text \<open>A backing store whose every read fails with an error other than ``not found''.\<close>

definition brokenStorage :: "byte list \<Rightarrow> byte list \<times> error option" where
  "brokenStorage k = ([], Some (ErrOther ''io''))"

text \<open>
  The version of a key in the final map: the \<open>new\<close> field of its entry, and 0 while the
  final map has no entry (the version a default entry would carry).
\<close>

definition finalVersion :: "'t StagingTable \<Rightarrow> string \<Rightarrow> int" where
  "finalVersion tbl keyStr =
     (case finalVersionizedValue tbl keyStr of None \<Rightarrow> 0 | Some e \<Rightarrow> new e)"

text \<open>
  Sequences of calls of the public operations. A call of \<open>MergeToFinal\<close> carries the two
  orders in which its loops visit the keys; it is \<open>enabled\<close> when they are orders of the
  map of the transaction.
\<close>

datatype 't operation =
    OpGet "'t option" "byte list"
  | OpPut "'t option" "byte list" "byte list"
  | OpSet "'t option" "byte list" "byte list" bool bool
  | OpDel "'t option" "byte list"
  | OpPurge "'t option"
  | OpMergeToFinal "'t option" "string list" "string list"

fun exec :: "'t StagingTable \<Rightarrow> 't operation \<Rightarrow> 't StagingTable" where
  "exec tbl (OpGet t k) = snd (Get tbl t k)"
| "exec tbl (OpPut t k v) = snd (Put tbl t k v)"
| "exec tbl (OpSet t k v del drt) = snd (Set_item tbl t k v del drt)"
| "exec tbl (OpDel t k) = snd (Del tbl t k)"
| "exec tbl (OpPurge t) = Purge tbl t"
| "exec tbl (OpMergeToFinal t order1 order2) = snd (MergeToFinal tbl t order1 order2)"

fun enabled :: "'t StagingTable \<Rightarrow> 't operation \<Rightarrow> bool" where
  "enabled tbl (OpMergeToFinal t order1 order2) \<longleftrightarrow>
     rangeOrder (valuesOf tbl t) order1 \<and> rangeOrder (valuesOf tbl t) order2"
| "enabled tbl _ \<longleftrightarrow> True"

inductive reachable :: "'t StagingTable \<Rightarrow> bool" where
  init: "reachable (NewStagingTable st)"
| step: "reachable tbl \<Longrightarrow> enabled tbl op \<Longrightarrow> reachable (exec tbl op)"



text \<open>
  The two invariants of the table: every key of the map of a transaction has an entry in
  the final map, and every entry of a transaction carries consecutive versions.
\<close>

definition workspacesInFinal :: "'t StagingTable \<Rightarrow> bool" where
  "workspacesInFinal tbl \<longleftrightarrow>
     (\<forall>t. dom (valuesOf tbl (Some t)) \<subseteq> dom (finalVersionizedValue tbl))"

definition versionsConsecutive :: "'t StagingTable \<Rightarrow> bool" where
  "versionsConsecutive tbl \<longleftrightarrow>
     (\<forall>t k e. valuesOf tbl (Some t) k = Some e \<longrightarrow> new e = old e + 1)"

definition tableInv :: "'t StagingTable \<Rightarrow> bool" where
  "tableInv tbl \<longleftrightarrow> workspacesInFinal tbl \<and> versionsConsecutive tbl"

text \<open>
  Concrete tables, built by the operations themselves from an empty backing store; the key
  is the byte \<open>0x61\<close> (``a''), whose canonical form is \<open>''61''\<close>.
  \<^item> \<open>scenarioPut\<close>: transaction 1 has put a value.
  \<^item> \<open>scenarioStale\<close>: transactions 1 and 2 have both read the key, then 1 has put a value
    and merged; the entry of 2 is now based on version 0 of a key that is at version 1.
  \<^item> \<open>scenarioDependent\<close>: after that, transaction 3 has put another value.
\<close>

definition scenarioPut :: "nat StagingTable" where
  "scenarioPut = exec (NewStagingTable emptyStorage) (OpPut (Some 1) [0x61] [0x76])"

definition staleOps :: "nat operation list" where
  "staleOps =
     [OpGet (Some 1) [0x61], OpGet (Some 2) [0x61], OpPut (Some 1) [0x61] [0x76],
      OpMergeToFinal (Some 1) [''61''] [''61'']]"

definition scenarioStale :: "nat StagingTable" where
  "scenarioStale = foldl exec (NewStagingTable emptyStorage) staleOps"

definition scenarioDependent :: "nat StagingTable" where
  "scenarioDependent = exec scenarioStale (OpPut (Some 3) [0x61] [0x77])"

text \<open>Every call of the sequence is enabled in the table it is made on.\<close>

fun enabledRun :: "'t StagingTable \<Rightarrow> 't operation list \<Rightarrow> bool" where
  "enabledRun tbl [] \<longleftrightarrow> True"
| "enabledRun tbl (op # ops) \<longleftrightarrow> enabled tbl op \<and> enabledRun (exec tbl op) ops"

section \<open>Properties\<close>

subsection \<open>The maps of the table\<close>

lemma getVersionizedValuesOfTid_final [simp]:
  "finalVersionizedValue (getVersionizedValuesOfTid tbl t) = finalVersionizedValue tbl"
  by (simp add: getVersionizedValuesOfTid_def split: option.splits)

lemma getVersionizedValuesOfTid_storage [simp]:
  "storage (getVersionizedValuesOfTid tbl t) = storage tbl"
  by (simp add: getVersionizedValuesOfTid_def split: option.splits)

lemma getVersionizedValuesOfTid_valuesOf [simp]:
  "valuesOf (getVersionizedValuesOfTid tbl t) u = valuesOf tbl u"
  by (auto simp: getVersionizedValuesOfTid_def valuesOf_def split: option.splits)

lemma getVersionizedValuesOfTid_idem [simp]:
  "getVersionizedValuesOfTid (getVersionizedValuesOfTid tbl t) t = getVersionizedValuesOfTid tbl t"
  by (auto simp: getVersionizedValuesOfTid_def split: option.splits)

lemma getVersionizedValuesOfTid_present:
  "allVersionizedValues tbl (Some t) = Some m \<Longrightarrow> getVersionizedValuesOfTid tbl (Some t) = tbl"
  by (simp add: getVersionizedValuesOfTid_def)

lemma getVersionizedValuesOfTid_nil [simp]: "getVersionizedValuesOfTid tbl None = tbl"
  by (simp add: getVersionizedValuesOfTid_def)

lemma storeValue_final [simp]:
  "finalVersionizedValue (storeValue tbl t keyStr valueItem) =
     (if t = None then (finalVersionizedValue tbl)(keyStr \<mapsto> valueItem) else finalVersionizedValue tbl)"
  by (simp add: storeValue_def split: option.splits)

lemma storeValue_storage [simp]: "storage (storeValue tbl t keyStr valueItem) = storage tbl"
  by (simp add: storeValue_def split: option.splits)

lemma storeValue_valuesOf [simp]:
  "valuesOf (storeValue tbl t keyStr valueItem) u =
     (if u = t then (valuesOf tbl t)(keyStr \<mapsto> valueItem) else valuesOf tbl u)"
  by (auto simp: storeValue_def valuesOf_def split: option.splits)

lemma valuesOf_nil [simp]: "valuesOf tbl None = finalVersionizedValue tbl"
  by (simp add: valuesOf_def)

lemma valuesOf_final_update [simp]:
  "valuesOf (tbl\<lparr>finalVersionizedValue := f\<rparr>) (Some t) = valuesOf tbl (Some t)"
  by (simp add: valuesOf_def)

text \<open>The four outcomes of the shared get-or-derive step.\<close>

lemma getForUpdate_present:
  "valuesOf tbl t (Hex k) = Some e \<Longrightarrow>
   getVersionizedValueForUpdate tbl t k = (Return e, getVersionizedValuesOfTid tbl t)"
  by (simp add: getVersionizedValueForUpdate_def)

lemma getForUpdate_derived:
  "valuesOf tbl t (Hex k) = None \<Longrightarrow> finalVersionizedValue tbl (Hex k) = Some fv \<Longrightarrow>
   getVersionizedValueForUpdate tbl t k =
     (Return (IncrVersionizedValueItem t fv),
      storeValue (getVersionizedValuesOfTid tbl t) t (Hex k) (IncrVersionizedValueItem t fv))"
  by (simp add: getVersionizedValueForUpdate_def getAndIncrValueFromFinalVersionValue_def)

lemma getForUpdate_loaded:
  "valuesOf tbl t (Hex k) = None \<Longrightarrow> finalVersionizedValue tbl (Hex k) = None \<Longrightarrow>
   storeReadable (storage tbl k) \<Longrightarrow>
   getVersionizedValueForUpdate tbl t k =
     (Return (IncrVersionizedValueItem t (NewDefaultVersionizedValueItem k (fst (storage tbl k)))),
      storeValue
        ((getVersionizedValuesOfTid tbl t)
           \<lparr>finalVersionizedValue :=
              (finalVersionizedValue tbl)(Hex k \<mapsto> NewDefaultVersionizedValueItem k (fst (storage tbl k)))\<rparr>)
        t (Hex k)
        (IncrVersionizedValueItem t (NewDefaultVersionizedValueItem k (fst (storage tbl k)))))"
  by (cases "storage tbl k")
     (auto simp: getVersionizedValueForUpdate_def getAndIncrValueFromFinalVersionValue_def
        storeReadable_def Let_def)

lemma getForUpdate_failed:
  "valuesOf tbl t (Hex k) = None \<Longrightarrow> finalVersionizedValue tbl (Hex k) = None \<Longrightarrow>
   snd (storage tbl k) = Some e \<Longrightarrow> e \<noteq> ErrKeyNotFound \<Longrightarrow>
   getVersionizedValueForUpdate tbl t k = (Fail e, getVersionizedValuesOfTid tbl t)"
  by (cases "storage tbl k")
     (auto simp: getVersionizedValueForUpdate_def getAndIncrValueFromFinalVersionValue_def Let_def)

lemma getForUpdate_cases:
  obtains
    (present) e where "valuesOf tbl t (Hex k) = Some e"
  | (derived) fv where "valuesOf tbl t (Hex k) = None" "finalVersionizedValue tbl (Hex k) = Some fv"
  | (loaded) "valuesOf tbl t (Hex k) = None" "finalVersionizedValue tbl (Hex k) = None"
      "storeReadable (storage tbl k)"
  | (failed) e where "valuesOf tbl t (Hex k) = None" "finalVersionizedValue tbl (Hex k) = None"
      "snd (storage tbl k) = Some e" "e \<noteq> ErrKeyNotFound"
  by (cases "valuesOf tbl t (Hex k)"; cases "finalVersionizedValue tbl (Hex k)";
      cases "snd (storage tbl k)") (auto simp: storeReadable_def)

lemma getForUpdate_never_panics: "fst (getVersionizedValueForUpdate tbl t k) \<noteq> NilPanic"
  by (cases tbl t k rule: getForUpdate_cases)
     (simp_all add: getForUpdate_present getForUpdate_derived getForUpdate_loaded getForUpdate_failed)

lemma getForUpdate_stored:
  "getVersionizedValueForUpdate tbl t k = (Return e, tbl') \<Longrightarrow> valuesOf tbl' t (Hex k) = Some e"
  by (cases tbl t k rule: getForUpdate_cases)
     (auto simp: getForUpdate_present getForUpdate_derived getForUpdate_loaded getForUpdate_failed)

subsection \<open>The loops of MergeToFinal\<close>

lemma mergeDirty_storage [simp]: "storage (mergeDirty tbl t ks) = storage tbl"
  by (induction ks arbitrary: tbl) (auto split: option.splits)

lemma mergeDirty_all [simp]:
  "allVersionizedValues (mergeDirty tbl t ks) = allVersionizedValues tbl"
  by (induction ks arbitrary: tbl) (auto split: option.splits)

lemma CloneForFinal_idem [simp]: "CloneForFinal (CloneForFinal e) = CloneForFinal e"
  by (simp add: CloneForFinal_def)

lemma CloneForFinal_dirty [simp]: "dirty (CloneForFinal e)"
  by (simp add: CloneForFinal_def)

lemma valuesOf_final_update_Some:
  "valuesOf (tbl\<lparr>finalVersionizedValue := f\<rparr>) t =
     (case t of None \<Rightarrow> f | Some _ \<Rightarrow> valuesOf tbl t)"
  by (simp add: valuesOf_def split: option.splits)

lemma mergeDirty_final:
  "finalVersionizedValue (mergeDirty tbl t ks) k =
     (case valuesOf tbl t k of
        None \<Rightarrow> finalVersionizedValue tbl k
      | Some e \<Rightarrow> if k \<in> set ks \<and> dirty e then Some (CloneForFinal e)
                  else finalVersionizedValue tbl k)"
proof (induction ks arbitrary: tbl)
  case Nil
  then show ?case by (simp split: option.splits)
next
  case (Cons a ks)
  show ?case
  proof (cases t)
    case None
    then show ?thesis
      using Cons.IH by (auto split: option.splits)
  next
    case (Some u)
    then show ?thesis
      using Cons.IH by (auto split: option.splits)
  qed
qed

lemma checkVersion_None_iff:
  "checkVersion tbl t ks acc = None \<longleftrightarrow>
     (\<exists>k\<in>set ks. valuesOf tbl t k \<noteq> None \<and> finalVersionizedValue tbl k = None)"
proof (induction ks arbitrary: acc)
  case Nil
  then show ?case by simp
next
  case (Cons a ks)
  obtain dep conf where acc: "acc = (dep, conf)" by (cases acc)
  show ?case
    unfolding acc using Cons.IH by (auto split: option.splits)
qed

lemma checkVersion_conflicts:
  "checkVersion tbl t ks (dep, conf) = Some (dep', conf') \<Longrightarrow>
   dom conf' = {} \<longleftrightarrow>
     dom conf = {} \<and>
     (\<forall>k\<in>set ks. \<forall>tv fv. valuesOf tbl t k = Some tv \<longrightarrow>
        finalVersionizedValue tbl k = Some fv \<longrightarrow> old tv = new fv)"
proof (induction ks arbitrary: dep conf)
  case Nil
  then show ?case by simp
next
  case (Cons a ks)
  from Cons.prems show ?case
    by (auto split: option.splits if_splits dest!: Cons.IH)
qed

lemma checkVersion_dependents:
  "checkVersion tbl t ks (dep, conf) = Some (dep', conf') \<Longrightarrow>
   dep' = dep \<union>
     {tid fv | k tv fv. k \<in> set ks \<and> valuesOf tbl t k = Some tv \<and>
        finalVersionizedValue tbl k = Some fv \<and> old tv = new fv \<and> \<not> isDefault fv}"
proof (induction ks arbitrary: dep conf)
  case Nil
  then show ?case by simp
next
  case (Cons a ks)
  from Cons.prems show ?case
    by (auto split: option.splits if_splits dest!: Cons.IH)
qed

lemma checkVersion_cong:
  "valuesOf tbl' t = valuesOf tbl t \<Longrightarrow> finalVersionizedValue tbl' = finalVersionizedValue tbl \<Longrightarrow>
   checkVersion tbl' t ks acc = checkVersion tbl t ks acc"
proof (induction ks arbitrary: acc)
  case Nil
  then show ?case by simp
next
  case (Cons a ks)
  obtain dep conf where acc: "acc = (dep, conf)" by (cases acc)
  show ?case
    unfolding acc using Cons by (simp split: option.splits)
qed

lemma checkVersion_registered [simp]:
  "checkVersion (getVersionizedValuesOfTid tbl t) t ks acc = checkVersion tbl t ks acc"
  by (rule checkVersion_cong) simp_all

lemma MergeToFinal_outcome:
  "fst (MergeToFinal tbl t order1 order2) =
     (case checkVersion tbl t order1 ({}, Map.empty) of
        None \<Rightarrow> NilPanic
      | Some (dep, conf) \<Rightarrow>
          if dom conf \<noteq> {} then Fail ErrStagingTableKeyConfliction else Return dep)"
  by (simp add: MergeToFinal_def Let_def split: option.splits prod.splits)

lemma MergeToFinal_final:
  "finalVersionizedValue (snd (MergeToFinal tbl t order1 order2)) =
     (case fst (MergeToFinal tbl t order1 order2) of
        Return _ \<Rightarrow> finalVersionizedValue (mergeDirty (getVersionizedValuesOfTid tbl t) t order2)
      | _ \<Rightarrow> finalVersionizedValue tbl)"
  by (simp add: MergeToFinal_def Let_def split: option.splits prod.splits)

lemma mergeDirty_valuesOf [simp]:
  "valuesOf (mergeDirty tbl t ks) (Some u) = valuesOf tbl (Some u)"
  by (simp add: valuesOf_def)

lemma MergeToFinal_valuesOf:
  "valuesOf (snd (MergeToFinal tbl t order1 order2)) (Some u) = valuesOf tbl (Some u)"
  by (simp add: MergeToFinal_def Let_def split: option.splits prod.splits)

lemma MergeToFinal_storage:
  "storage (snd (MergeToFinal tbl t order1 order2)) = storage tbl"
  by (simp add: MergeToFinal_def Let_def split: option.splits prod.splits)

text \<open>
  Claim C1. \<open>MergeToFinal(tid)\<close> returns the conflict error if and only if some key of
  the map of \<open>tid\<close> has an entry whose \<open>old\<close> differs from the \<open>new\<close> of the final
  entry of that key; and when it returns the conflict error the final map is the one it
  was before the call. The first loop visits the keys of the map of \<open>tid\<close>, and every
  such key has a final entry (the invariant of claim C10; for \<open>nil\<close> it holds trivially).
\<close>

theorem MergeToFinal_conflict_iff:
  assumes "set order1 = dom (valuesOf tbl t)"
    and "dom (valuesOf tbl t) \<subseteq> dom (finalVersionizedValue tbl)"
  shows "(fst (MergeToFinal tbl t order1 order2) = Fail ErrStagingTableKeyConfliction \<longleftrightarrow>
            (\<exists>k tv fv. valuesOf tbl t k = Some tv \<and> finalVersionizedValue tbl k = Some fv \<and>
                        old tv \<noteq> new fv)) \<and>
         (fst (MergeToFinal tbl t order1 order2) = Fail ErrStagingTableKeyConfliction \<longrightarrow>
            finalVersionizedValue (snd (MergeToFinal tbl t order1 order2)) =
              finalVersionizedValue tbl)"
proof -
  have "checkVersion tbl t order1 ({}, Map.empty) \<noteq> None"
    using assms(2) by (auto simp: checkVersion_None_iff)
  then obtain dep conf where cv: "checkVersion tbl t order1 ({}, Map.empty) = Some (dep, conf)"
    by auto
  have "dom conf \<noteq> {} \<longleftrightarrow>
          (\<exists>k tv fv. valuesOf tbl t k = Some tv \<and> finalVersionizedValue tbl k = Some fv \<and>
                      old tv \<noteq> new fv)"
    using checkVersion_conflicts [OF cv] assms(1) by auto
  then have "fst (MergeToFinal tbl t order1 order2) = Fail ErrStagingTableKeyConfliction \<longleftrightarrow>
          (\<exists>k tv fv. valuesOf tbl t k = Some tv \<and> finalVersionizedValue tbl k = Some fv \<and>
                      old tv \<noteq> new fv)"
    by (simp add: MergeToFinal_outcome cv)
  moreover have "fst (MergeToFinal tbl t order1 order2) = Fail ErrStagingTableKeyConfliction \<longrightarrow>
            finalVersionizedValue (snd (MergeToFinal tbl t order1 order2)) =
              finalVersionizedValue tbl"
    by (simp add: MergeToFinal_final)
  ultimately show ?thesis by blast
qed

text \<open>
  Claim C2. When \<open>MergeToFinal(tid)\<close> succeeds, the final entry of every key whose entry
  in the map of \<open>tid\<close> is dirty is afterwards the \<open>CloneForFinal\<close> of that entry (the
  entry with \<open>dirty\<close> set), and the final entry of every key whose entry is not dirty is
  unchanged.
\<close>

theorem MergeToFinal_publishes_dirty:
  assumes "fst (MergeToFinal tbl t order1 order2) = Return deps"
    and "set order2 = dom (valuesOf tbl t)"
    and "valuesOf tbl t k = Some e"
  shows "(dirty e \<longrightarrow>
            finalVersionizedValue (snd (MergeToFinal tbl t order1 order2)) k =
              Some (CloneForFinal e)) \<and>
         (\<not> dirty e \<longrightarrow>
            finalVersionizedValue (snd (MergeToFinal tbl t order1 order2)) k =
              finalVersionizedValue tbl k) \<and>
         CloneForFinal e = e\<lparr>dirty := True\<rparr>"
proof -
  have "k \<in> set order2"
    using assms(2,3) by auto
  then show ?thesis
    using assms(1,3) by (simp add: MergeToFinal_final mergeDirty_final CloneForFinal_def)
qed

text \<open>
  Claim C8. When \<open>MergeToFinal(tid)\<close> succeeds, its result is the set of the owners
  (\<open>tid\<close> fields) of the final entries, before the merge, of the keys of the map of
  \<open>tid\<close> that are not default entries; when all of them are default entries the result
  is empty.
\<close>

theorem MergeToFinal_dependent_tids:
  assumes "fst (MergeToFinal tbl t order1 order2) = Return deps"
    and "set order1 = dom (valuesOf tbl t)"
  shows "deps = {tid fv | k fv. k \<in> dom (valuesOf tbl t) \<and>
                   finalVersionizedValue tbl k = Some fv \<and> \<not> isDefault fv} \<and>
         ((\<forall>k\<in>dom (valuesOf tbl t). \<forall>fv. finalVersionizedValue tbl k = Some fv \<longrightarrow> isDefault fv)
            \<longrightarrow> deps = {})"
proof -
  from assms(1) obtain conf where cv: "checkVersion tbl t order1 ({}, Map.empty) = Some (deps, conf)"
    and noconf: "dom conf = {}"
    by (auto simp: MergeToFinal_outcome split: option.splits if_splits)
  have agree: "\<forall>k\<in>set order1. \<forall>tv fv. valuesOf tbl t k = Some tv \<longrightarrow>
        finalVersionizedValue tbl k = Some fv \<longrightarrow> old tv = new fv"
    using checkVersion_conflicts [OF cv] noconf by simp
  have "deps = {tid fv | k tv fv. k \<in> set order1 \<and> valuesOf tbl t k = Some tv \<and>
        finalVersionizedValue tbl k = Some fv \<and> old tv = new fv \<and> \<not> isDefault fv}"
    using checkVersion_dependents [OF cv] by simp
  also have "\<dots> = {tid fv | k fv. k \<in> dom (valuesOf tbl t) \<and>
                   finalVersionizedValue tbl k = Some fv \<and> \<not> isDefault fv}"
    using agree assms(2) by (auto simp: dom_def) blast+
  finally have main: "deps = {tid fv | k fv. k \<in> dom (valuesOf tbl t) \<and>
                   finalVersionizedValue tbl k = Some fv \<and> \<not> isDefault fv}" .
  then show ?thesis by auto
qed

subsection \<open>Get, Put and Purge\<close>

lemma getForUpdate_final_nonnil:
  "finalVersionizedValue (snd (getVersionizedValueForUpdate tbl (Some t) k)) =
     (if valuesOf tbl (Some t) (Hex k) = None \<and> finalVersionizedValue tbl (Hex k) = None \<and>
         storeReadable (storage tbl k)
      then (finalVersionizedValue tbl)(Hex k \<mapsto> NewDefaultVersionizedValueItem k (fst (storage tbl k)))
      else finalVersionizedValue tbl)"
  by (cases tbl "Some t" k rule: getForUpdate_cases)
     (auto simp: getForUpdate_present getForUpdate_derived getForUpdate_loaded getForUpdate_failed
        storeReadable_def)

text \<open>
  Claim C5. For a transaction \<open>t\<close> (not \<open>nil\<close>) and a key that its map does not hold,
  \<open>Get\<close> returns an entry (unless the final map has no entry either and the store
  fails) whose \<open>old\<close> is the version of the key in the final map before the call, 0
  without a final entry, whose \<open>new\<close> is \<open>old + 1\<close> and which is not dirty; value and
  deleted flag are those of the final entry. For a key the map holds, \<open>Get\<close> returns the
  entry as it is and leaves the map as it is.
\<close>

theorem Get_derives_fresh_entry:
  "(valuesOf tbl (Some t) (Hex k) = None \<and>
      (finalVersionizedValue tbl (Hex k) \<noteq> None \<or> storeReadable (storage tbl k)) \<longrightarrow>
      (\<exists>e. fst (Get tbl (Some t) k) = Return e \<and>
           old e = finalVersion tbl (Hex k) \<and> new e = old e + 1 \<and> \<not> dirty e \<and>
           valuesOf (snd (Get tbl (Some t) k)) (Some t) (Hex k) = Some e)) \<and>
   (\<forall>e. valuesOf tbl u (Hex k) = Some e \<longrightarrow>
      fst (Get tbl u k) = Return e \<and>
      valuesOf (snd (Get tbl u k)) u = valuesOf tbl u) \<and>
   (\<forall>fv. valuesOf tbl (Some t) (Hex k) = None \<and> finalVersionizedValue tbl (Hex k) = Some fv \<longrightarrow>
      (\<exists>e. fst (Get tbl (Some t) k) = Return e \<and> val e = val fv \<and> deleted e = deleted fv \<and>
           \<not> dirty e))"
proof -
  have fresh: "\<exists>e. fst (Get tbl (Some t) k) = Return e \<and>
           old e = finalVersion tbl (Hex k) \<and> new e = old e + 1 \<and> \<not> dirty e \<and>
           valuesOf (snd (Get tbl (Some t) k)) (Some t) (Hex k) = Some e"
    if a: "valuesOf tbl (Some t) (Hex k) = None \<and>
      (finalVersionizedValue tbl (Hex k) \<noteq> None \<or> storeReadable (storage tbl k))"
  proof (cases "finalVersionizedValue tbl (Hex k)")
    case None
    with a show ?thesis
      by (simp add: Get_def getForUpdate_loaded finalVersion_def IncrVersionizedValueItem_def
          NewDefaultVersionizedValueItem_def)
  next
    case (Some fv)
    with a show ?thesis
      by (simp add: Get_def getForUpdate_derived finalVersion_def IncrVersionizedValueItem_def)
  qed
  have kept: "fst (Get tbl u k) = Return e \<and> valuesOf (snd (Get tbl u k)) u = valuesOf tbl u"
    if "valuesOf tbl u (Hex k) = Some e" for e
    using that by (simp add: Get_def getForUpdate_present)
  have copied: "\<exists>e. fst (Get tbl (Some t) k) = Return e \<and> val e = val fv \<and>
      deleted e = deleted fv \<and> \<not> dirty e"
    if "valuesOf tbl (Some t) (Hex k) = None \<and> finalVersionizedValue tbl (Hex k) = Some fv" for fv
    using that by (simp add: Get_def getForUpdate_derived IncrVersionizedValueItem_def)
  from fresh kept copied show ?thesis by blast
qed

text \<open>
  Claim C6. \<open>Put(tid, key, v)\<close> takes the entry that \<open>Get(tid, key)\<close> yields, sets
  \<open>dirty\<close> to ``\<open>dirty\<close> or \<open>val \<noteq> v\<close>'' and then \<open>val\<close> to \<open>v\<close>, and stores it: an
  equal value leaves the entry as it was, a different value makes it dirty.
\<close>

theorem Put_dirty_rule:
  assumes "Get tbl t k = (Return e, tbl1)"
  shows "fst (Put tbl t k v) = Return (e\<lparr>dirty := dirty e \<or> val e \<noteq> v, val := v\<rparr>) \<and>
         valuesOf (snd (Put tbl t k v)) t (Hex k) =
           Some (e\<lparr>dirty := dirty e \<or> val e \<noteq> v, val := v\<rparr>) \<and>
         (val e = v \<longrightarrow> fst (Put tbl t k v) = Return e) \<and>
         (val e \<noteq> v \<longrightarrow> (\<exists>e'. fst (Put tbl t k v) = Return e' \<and> dirty e' \<and> val e' = v))"
  using assms by (auto simp: Put_def Get_def Let_def)

text \<open>
  Claim C7. \<open>Purge(t)\<close> removes the map of \<open>t\<close> and nothing else; a \<open>Get\<close> after it
  derives the entry from the final map, with the same result, the same map of \<open>t\<close> and
  the same final map as in any table of the same store and final map in which \<open>t\<close> has
  no map; a second \<open>Purge\<close> changes nothing, nor does a \<open>Purge\<close> of a transaction
  without a map, nor \<open>Purge(nil)\<close>.
\<close>

theorem Purge_discards_workspace:
  "valuesOf (Purge tbl (Some t)) (Some t) = Map.empty \<and>
   allVersionizedValues (Purge tbl (Some t)) (Some t) = None \<and>
   finalVersionizedValue (Purge tbl (Some t)) = finalVersionizedValue tbl \<and>
   (\<forall>fv. finalVersionizedValue tbl (Hex k) = Some fv \<longrightarrow>
      fst (Get (Purge tbl (Some t)) (Some t) k) = Return (IncrVersionizedValueItem (Some t) fv)) \<and>
   (\<forall>tbl'. storage tbl' = storage tbl \<and>
        finalVersionizedValue tbl' = finalVersionizedValue tbl \<and>
        allVersionizedValues tbl' (Some t) = None \<longrightarrow>
      fst (Get (Purge tbl (Some t)) (Some t) k) = fst (Get tbl' (Some t) k) \<and>
      valuesOf (snd (Get (Purge tbl (Some t)) (Some t) k)) (Some t) =
        valuesOf (snd (Get tbl' (Some t) k)) (Some t) \<and>
      finalVersionizedValue (snd (Get (Purge tbl (Some t)) (Some t) k)) =
        finalVersionizedValue (snd (Get tbl' (Some t) k))) \<and>
   Purge (Purge tbl u) u = Purge tbl u \<and>
   (allVersionizedValues tbl (Some t) = None \<longrightarrow> Purge tbl (Some t) = tbl) \<and>
   Purge tbl None = tbl \<and>
   storage (Purge tbl u) = storage tbl \<and>
   (\<forall>w. w \<noteq> u \<longrightarrow> allVersionizedValues (Purge tbl u) w = allVersionizedValues tbl w)"
proof -
  have gone: "valuesOf (Purge tbl (Some t)) (Some t) = Map.empty"
    "allVersionizedValues (Purge tbl (Some t)) (Some t) = None"
    "finalVersionizedValue (Purge tbl (Some t)) = finalVersionizedValue tbl"
    "storage (Purge tbl (Some t)) = storage tbl"
    by (simp_all add: Purge_def valuesOf_def)
  have derived: "fst (Get (Purge tbl (Some t)) (Some t) k) =
      Return (IncrVersionizedValueItem (Some t) fv)"
    if "finalVersionizedValue tbl (Hex k) = Some fv" for fv
    using that by (simp add: Get_def getForUpdate_derived gone)
  have same: "fst (Get (Purge tbl (Some t)) (Some t) k) = fst (Get tbl' (Some t) k) \<and>
      valuesOf (snd (Get (Purge tbl (Some t)) (Some t) k)) (Some t) =
        valuesOf (snd (Get tbl' (Some t) k)) (Some t) \<and>
      finalVersionizedValue (snd (Get (Purge tbl (Some t)) (Some t) k)) =
        finalVersionizedValue (snd (Get tbl' (Some t) k))"
    if h: "storage tbl' = storage tbl \<and>
        finalVersionizedValue tbl' = finalVersionizedValue tbl \<and>
        allVersionizedValues tbl' (Some t) = None" for tbl'
  proof -
    have v': "valuesOf tbl' (Some t) = Map.empty"
      using h by (simp add: valuesOf_def)
    let ?p = "Purge tbl (Some t)"
    show ?thesis
    proof (cases ?p "Some t" k rule: getForUpdate_cases)
      case (present e)
      then show ?thesis by (simp add: gone)
    next
      case (derived fv)
      then show ?thesis
        using h v' by (simp add: Get_def getForUpdate_derived gone)
    next
      case loaded
      then show ?thesis
        using h v' by (simp add: Get_def getForUpdate_loaded gone)
    next
      case (failed e)
      then show ?thesis
        using h v' by (simp add: Get_def getForUpdate_failed gone)
    qed
  qed
  have idem: "Purge (Purge tbl u) u = Purge tbl u"
    by (simp add: Purge_def split: option.splits)
  have untouched: "Purge tbl (Some t) = tbl" if "allVersionizedValues tbl (Some t) = None"
  proof -
    have "(allVersionizedValues tbl)(Some t := None) = allVersionizedValues tbl"
      using that by (simp add: fun_upd_idem)
    then show ?thesis by (simp add: Purge_def)
  qed
  have nil: "Purge tbl None = tbl"
    by (simp add: Purge_def)
  have others: "allVersionizedValues (Purge tbl u) w = allVersionizedValues tbl w"
    if "w \<noteq> u" for w
    using that by (cases u) (simp_all add: Purge_def)
  have store: "storage (Purge tbl u) = storage tbl"
    by (simp add: Purge_def split: option.splits)
  from gone derived same idem untouched nil others store show ?thesis by blast
qed

subsection \<open>Invariants of the reachable tables\<close>

lemmas inv_defs = tableInv_def workspacesInFinal_def versionsConsecutive_def

lemma tableInv_init: "tableInv (NewStagingTable st)"
  by (simp add: inv_defs NewStagingTable_def valuesOf_def)

lemma tableInv_getForUpdate:
  assumes "tableInv tbl"
  shows "tableInv (snd (getVersionizedValueForUpdate tbl t k))"
proof (cases tbl t k rule: getForUpdate_cases)
  case (present e)
  with assms show ?thesis
    by (simp add: getForUpdate_present inv_defs)
next
  case (derived fv)
  with assms show ?thesis
    by (cases t) (auto simp: getForUpdate_derived inv_defs IncrVersionizedValueItem_def
        split: if_splits)
next
  case loaded
  with assms show ?thesis
    by (cases t) (auto simp: getForUpdate_loaded inv_defs IncrVersionizedValueItem_def
        NewDefaultVersionizedValueItem_def split: if_splits)
next
  case (failed e)
  with assms show ?thesis
    by (simp add: getForUpdate_failed inv_defs)
qed

lemma tableInv_storeValue:
  assumes "tableInv tbl" and "valuesOf tbl t ks = Some e" and "old e' = old e" and "new e' = new e"
  shows "tableInv (storeValue tbl t ks e')"
  using assms by (cases t) (auto simp: inv_defs split: if_splits)

lemma tableInv_update:
  assumes "tableInv tbl"
    and "getVersionizedValueForUpdate tbl t k = (Return x, tbl1)"
    and "old e' = old x" and "new e' = new x"
  shows "tableInv (storeValue tbl1 t (Hex k) e')"
proof -
  have "tableInv tbl1"
    using tableInv_getForUpdate [OF assms(1), of t k] assms(2) by simp
  moreover have "valuesOf tbl1 t (Hex k) = Some x"
    using assms(2) by (rule getForUpdate_stored)
  ultimately show ?thesis
    using assms(3,4) by (rule tableInv_storeValue)
qed

lemma tableInv_after_getForUpdate:
  "tableInv tbl \<Longrightarrow> getVersionizedValueForUpdate tbl t k = (r, tbl1) \<Longrightarrow> tableInv tbl1"
  using tableInv_getForUpdate [of tbl t k] by simp

lemma tableInv_Put: "tableInv tbl \<Longrightarrow> tableInv (snd (Put tbl t k v))"
  by (auto simp: Put_def Let_def split: prod.splits outcome.splits
      intro: tableInv_update tableInv_after_getForUpdate)

lemma tableInv_Set: "tableInv tbl \<Longrightarrow> tableInv (snd (Set_item tbl t k v del drt))"
  by (auto simp: Set_item_def Let_def split: prod.splits outcome.splits
      intro: tableInv_update tableInv_after_getForUpdate)

lemma tableInv_Del: "tableInv tbl \<Longrightarrow> tableInv (snd (Del tbl t k))"
  by (auto simp: Del_def Let_def split: prod.splits outcome.splits
      intro: tableInv_update tableInv_after_getForUpdate)

lemma Purge_valuesOf:
  "valuesOf (Purge tbl t) (Some u) = (if t = Some u then Map.empty else valuesOf tbl (Some u))"
  by (auto simp: Purge_def valuesOf_def split: option.splits)

lemma Purge_final [simp]: "finalVersionizedValue (Purge tbl t) = finalVersionizedValue tbl"
  by (simp add: Purge_def split: option.splits)

lemma tableInv_Purge: "tableInv tbl \<Longrightarrow> tableInv (Purge tbl t)"
  by (auto simp: inv_defs Purge_valuesOf split: if_splits)

lemma mergeDirty_keeps_keys:
  "finalVersionizedValue tbl k \<noteq> None \<Longrightarrow> finalVersionizedValue (mergeDirty tbl t ks) k \<noteq> None"
  by (simp add: mergeDirty_final split: option.splits)

lemma MergeToFinal_keeps_keys:
  "finalVersionizedValue tbl k \<noteq> None \<Longrightarrow>
   finalVersionizedValue (snd (MergeToFinal tbl t order1 order2)) k \<noteq> None"
  using mergeDirty_keeps_keys [of "getVersionizedValuesOfTid tbl t" k t order2]
  by (auto simp: MergeToFinal_final split: outcome.splits)

lemma tableInv_MergeToFinal:
  assumes "tableInv tbl"
  shows "tableInv (snd (MergeToFinal tbl t order1 order2))"
  using assms MergeToFinal_keeps_keys [of tbl _ t order1 order2]
  by (auto simp: inv_defs MergeToFinal_valuesOf) blast

lemma tableInv_exec: "tableInv tbl \<Longrightarrow> tableInv (exec tbl op)"
  by (cases op)
     (simp_all add: Get_def tableInv_getForUpdate tableInv_Put tableInv_Set tableInv_Del
        tableInv_Purge tableInv_MergeToFinal)

lemma reachable_tableInv: "reachable tbl \<Longrightarrow> tableInv tbl"
  by (induction rule: reachable.induct) (simp_all add: tableInv_init tableInv_exec)

text \<open>
  Claim C10. In every table reachable by the public operations, every key of the map of a
  transaction has a final entry; so the first loop of \<open>MergeToFinal\<close> always finds
  \<open>finalValues[keyStr]\<close> and never dereferences \<open>nil\<close>.
\<close>

theorem merge_finds_final_entries:
  assumes "reachable tbl"
  shows "(\<forall>t. dom (valuesOf tbl (Some t)) \<subseteq> dom (finalVersionizedValue tbl)) \<and>
         (\<forall>t k. valuesOf tbl t k \<noteq> None \<longrightarrow> finalVersionizedValue tbl k \<noteq> None) \<and>
         (\<forall>t order1 order2. fst (MergeToFinal tbl t order1 order2) \<noteq> NilPanic)"
proof -
  have inv: "workspacesInFinal tbl"
    using reachable_tableInv [OF assms] by (simp add: tableInv_def)
  have found: "finalVersionizedValue tbl k \<noteq> None" if "valuesOf tbl t k \<noteq> None" for t k
    using that inv by (cases t) (auto simp: workspacesInFinal_def)
  have "fst (MergeToFinal tbl t order1 order2) \<noteq> NilPanic" for t order1 order2
  proof -
    have "\<not> (\<exists>k\<in>set order1. valuesOf tbl t k \<noteq> None \<and> finalVersionizedValue tbl k = None)"
      using found by blast
    then have "checkVersion tbl t order1 ({}, Map.empty) \<noteq> None"
      by (simp only: checkVersion_None_iff not_False_eq_True)
    then show ?thesis
      by (auto simp: MergeToFinal_outcome split: if_splits)
  qed
  with inv found show ?thesis
    by (simp add: workspacesInFinal_def)
qed










subsection \<open>The nil identifier and the backing store\<close>



text \<open>
  Claim C9. When the final map has no entry for the key and the store is read:
  ``not found'' is no error; the final map receives the default entry (owner \<open>nil\<close>,
  versions 0 and 0, not deleted, not dirty) with the value the store handed back, which
  is empty for a store that hands back \<open>nil\<close> with ``not found''. Any other error is the
  result of the derivation and of the \<open>Get\<close>, \<open>Put\<close>, \<open>Set\<close> or \<open>Del\<close> that needed it,
  and the final map is unchanged.
\<close>

theorem store_not_found_and_store_failure:
  assumes "finalVersionizedValue tbl (Hex k) = None"
  shows "(snd (storage tbl k) = Some ErrKeyNotFound \<longrightarrow>
            getAndIncrValueFromFinalVersionValue tbl t (Hex k) k =
              (Return (IncrVersionizedValueItem t
                         (NewDefaultVersionizedValueItem k (fst (storage tbl k)))),
               tbl\<lparr>finalVersionizedValue :=
                     (finalVersionizedValue tbl)
                       (Hex k \<mapsto> \<lparr>tid = None, key = k, val = fst (storage tbl k), old = 0, new = 0,
                                 deleted = False, dirty = False\<rparr>)\<rparr>) \<and>
            isDefault (NewDefaultVersionizedValueItem k (fst (storage tbl k)) :: 't VersionizedValueItem) \<and>
            (valuesOf tbl t (Hex k) = None \<longrightarrow>
               (\<exists>e. fst (Get tbl t k) = Return e \<and> val e = fst (storage tbl k)))) \<and>
         (\<forall>e. snd (storage tbl k) = Some e \<and> e \<noteq> ErrKeyNotFound \<longrightarrow>
            getAndIncrValueFromFinalVersionValue tbl t (Hex k) k = (Fail e, tbl) \<and>
            (valuesOf tbl t (Hex k) = None \<longrightarrow>
               fst (Get tbl t k) = Fail e \<and>
               fst (Put tbl t k v) = Fail e \<and>
               fst (Set_item tbl t k v del drt) = Fail e \<and>
               fst (Del tbl t k) = Fail e \<and>
               finalVersionizedValue (snd (Get tbl t k)) = finalVersionizedValue tbl \<and>
               finalVersionizedValue (snd (Put tbl t k v)) = finalVersionizedValue tbl \<and>
               finalVersionizedValue (snd (Set_item tbl t k v del drt)) = finalVersionizedValue tbl \<and>
               finalVersionizedValue (snd (Del tbl t k)) = finalVersionizedValue tbl))"
proof -
  have notfound: "getAndIncrValueFromFinalVersionValue tbl t (Hex k) k =
              (Return (IncrVersionizedValueItem t
                         (NewDefaultVersionizedValueItem k (fst (storage tbl k)))),
               tbl\<lparr>finalVersionizedValue :=
                     (finalVersionizedValue tbl)
                       (Hex k \<mapsto> \<lparr>tid = None, key = k, val = fst (storage tbl k), old = 0, new = 0,
                                 deleted = False, dirty = False\<rparr>)\<rparr>)"
    if "snd (storage tbl k) = Some ErrKeyNotFound"
    using that assms
    by (cases "storage tbl k")
       (simp add: getAndIncrValueFromFinalVersionValue_def NewDefaultVersionizedValueItem_def)
  have isdef: "isDefault (NewDefaultVersionizedValueItem k (fst (storage tbl k)) :: 't VersionizedValueItem)"
    by (simp add: isDefault_def NewDefaultVersionizedValueItem_def)
  have got: "\<exists>e. fst (Get tbl t k) = Return e \<and> val e = fst (storage tbl k)"
    if "snd (storage tbl k) = Some ErrKeyNotFound" "valuesOf tbl t (Hex k) = None"
    using that assms
    by (simp add: Get_def getForUpdate_loaded storeReadable_def IncrVersionizedValueItem_def
        NewDefaultVersionizedValueItem_def)
  have failure: "getAndIncrValueFromFinalVersionValue tbl t (Hex k) k = (Fail e, tbl)"
    if "snd (storage tbl k) = Some e \<and> e \<noteq> ErrKeyNotFound" for e
    using that assms
    by (cases "storage tbl k") (simp add: getAndIncrValueFromFinalVersionValue_def)
  have ops: "fst (Get tbl t k) = Fail e \<and>
               fst (Put tbl t k v) = Fail e \<and>
               fst (Set_item tbl t k v del drt) = Fail e \<and>
               fst (Del tbl t k) = Fail e \<and>
               finalVersionizedValue (snd (Get tbl t k)) = finalVersionizedValue tbl \<and>
               finalVersionizedValue (snd (Put tbl t k v)) = finalVersionizedValue tbl \<and>
               finalVersionizedValue (snd (Set_item tbl t k v del drt)) = finalVersionizedValue tbl \<and>
               finalVersionizedValue (snd (Del tbl t k)) = finalVersionizedValue tbl"
    if "snd (storage tbl k) = Some e \<and> e \<noteq> ErrKeyNotFound" "valuesOf tbl t (Hex k) = None" for e
    using that assms getForUpdate_failed [of tbl t k e]
    by (simp add: Get_def Put_def Set_item_def Del_def)
  from notfound isdef got failure ops show ?thesis
    by blast
qed

section \<open>Concrete instances\<close>

lemmas eval_defs = Get_def Put_def Set_item_def Del_def Purge_def getVersionizedValueForUpdate_def
  getAndIncrValueFromFinalVersionValue_def getVersionizedValuesOfTid_def valuesOf_def storeValue_def
  NewStagingTable_def NewDefaultVersionizedValueItem_def IncrVersionizedValueItem_def CloneForFinal_def
  isDefault_def MergeToFinal_def Hex_def hexDigit_def emptyStorage_def brokenStorage_def Let_def
  finalVersion_def rangeOrder_def storeReadable_def

lemma reachable_run:
  "reachable tbl \<Longrightarrow> enabledRun tbl ops \<Longrightarrow> reachable (foldl exec tbl ops)"
  by (induction ops arbitrary: tbl) (auto intro: reachable.step)

lemma scenarioPut_eq:
  "scenarioPut =
     \<lparr>storage = emptyStorage,
      allVersionizedValues =
        [Some 1 \<mapsto> [''61'' \<mapsto> \<lparr>tid = Some 1, key = [0x61], val = [0x76], old = 0, new = 1,
                                deleted = False, dirty = True\<rparr>]],
      finalVersionizedValue =
        [''61'' \<mapsto> \<lparr>tid = None, key = [0x61], val = [], old = 0, new = 0,
                     deleted = False, dirty = False\<rparr>]\<rparr>"
  by (simp add: scenarioPut_def eval_defs)

lemma scenarioStale_eq:
  "scenarioStale =
     \<lparr>storage = emptyStorage,
      allVersionizedValues =
        [Some 2 \<mapsto> [''61'' \<mapsto> \<lparr>tid = Some 2, key = [0x61], val = [], old = 0, new = 1,
                                deleted = False, dirty = False\<rparr>],
         Some 1 \<mapsto> [''61'' \<mapsto> \<lparr>tid = Some 1, key = [0x61], val = [0x76], old = 0, new = 1,
                                deleted = False, dirty = True\<rparr>]],
      finalVersionizedValue =
        [''61'' \<mapsto> \<lparr>tid = Some 1, key = [0x61], val = [0x76], old = 0, new = 1,
                     deleted = False, dirty = True\<rparr>]\<rparr>"
  by (simp add: scenarioStale_def staleOps_def eval_defs)

lemma scenarioDependent_eq:
  "scenarioDependent =
     \<lparr>storage = emptyStorage,
      allVersionizedValues =
        [Some 2 \<mapsto> [''61'' \<mapsto> \<lparr>tid = Some 2, key = [0x61], val = [], old = 0, new = 1,
                                deleted = False, dirty = False\<rparr>],
         Some 1 \<mapsto> [''61'' \<mapsto> \<lparr>tid = Some 1, key = [0x61], val = [0x76], old = 0, new = 1,
                                deleted = False, dirty = True\<rparr>],
         Some 3 \<mapsto> [''61'' \<mapsto> \<lparr>tid = Some 3, key = [0x61], val = [0x77], old = 1, new = 2,
                                deleted = False, dirty = True\<rparr>]],
      finalVersionizedValue =
        [''61'' \<mapsto> \<lparr>tid = Some 1, key = [0x61], val = [0x76], old = 0, new = 1,
                     deleted = False, dirty = True\<rparr>]\<rparr>"
  by (simp add: scenarioDependent_def scenarioStale_eq eval_defs)

lemma reachable_scenarioStale: "reachable scenarioStale"
  unfolding scenarioStale_def
  by (rule reachable_run [OF reachable.init]) (simp add: staleOps_def eval_defs)


text \<open>The stale transaction 2 gets the conflict error and the final map stays; the merge of transaction 1 in \<open>scenarioPut\<close> does not conflict.\<close>

theorem MergeToFinal_conflict_iff_witness:
  "fst (MergeToFinal scenarioStale (Some 2) [''61''] [''61'']) = Fail ErrStagingTableKeyConfliction \<and>
   finalVersionizedValue (snd (MergeToFinal scenarioStale (Some 2) [''61''] [''61''])) =
     finalVersionizedValue scenarioStale \<and>
   fst (MergeToFinal scenarioPut (Some 1) [''61''] [''61'']) \<noteq> Fail ErrStagingTableKeyConfliction"
proof -
  have o2: "set [''61''] = dom (valuesOf scenarioStale (Some 2))"
    by (simp add: scenarioStale_eq valuesOf_def)
  have i2: "dom (valuesOf scenarioStale (Some 2)) \<subseteq> dom (finalVersionizedValue scenarioStale)"
    by (simp add: scenarioStale_eq valuesOf_def)
  have stale: "\<exists>k tv fv. valuesOf scenarioStale (Some 2) k = Some tv \<and>
      finalVersionizedValue scenarioStale k = Some fv \<and> old tv \<noteq> new fv"
    by (rule exI [of _ "''61''"]) (simp add: scenarioStale_eq valuesOf_def)
  have o1: "set [''61''] = dom (valuesOf scenarioPut (Some 1))"
    by (simp add: scenarioPut_eq valuesOf_def)
  have i1: "dom (valuesOf scenarioPut (Some 1)) \<subseteq> dom (finalVersionizedValue scenarioPut)"
    by (simp add: scenarioPut_eq valuesOf_def)
  have fresh: "\<not> (\<exists>k tv fv. valuesOf scenarioPut (Some 1) k = Some tv \<and>
      finalVersionizedValue scenarioPut k = Some fv \<and> old tv \<noteq> new fv)"
    by (auto simp: scenarioPut_eq valuesOf_def split: if_splits)
  show ?thesis
    using MergeToFinal_conflict_iff [OF o2 i2, of "[''61'']"]
      MergeToFinal_conflict_iff [OF o1 i1, of "[''61'']"] stale fresh
    by blast
qed

text \<open>The dirty entry of transaction 1 is published.\<close>

theorem MergeToFinal_publishes_dirty_witness:
  "finalVersionizedValue (snd (MergeToFinal scenarioPut (Some 1) [''61''] [''61''])) ''61'' =
     Some \<lparr>tid = Some 1, key = [0x61], val = [0x76], old = 0, new = 1, deleted = False,
           dirty = True\<rparr> \<and>
   finalVersionizedValue (snd (MergeToFinal scenarioStale (Some 2) [''61''] [''61''])) ''61'' =
     finalVersionizedValue scenarioStale ''61''"
proof -
  have r: "fst (MergeToFinal scenarioPut (Some 1) [''61''] [''61'']) = Return {}"
    by (simp add: scenarioPut_eq eval_defs)
  have o: "set [''61''] = dom (valuesOf scenarioPut (Some 1))"
    by (simp add: scenarioPut_eq valuesOf_def)
  have e: "valuesOf scenarioPut (Some 1) ''61'' =
      Some \<lparr>tid = Some 1, key = [0x61], val = [0x76], old = 0, new = 1, deleted = False,
            dirty = True\<rparr>"
    by (simp add: scenarioPut_eq valuesOf_def)
  have "finalVersionizedValue (snd (MergeToFinal scenarioStale (Some 2) [''61''] [''61''])) ''61'' =
     finalVersionizedValue scenarioStale ''61''"
    by (simp add: scenarioStale_eq eval_defs)
  then show ?thesis
    using MergeToFinal_publishes_dirty [OF r o e] by (simp add: CloneForFinal_def)
qed

text \<open>The merge of transaction 3 depends on transaction 1; a merge onto a default entry depends on nothing.\<close>

theorem MergeToFinal_dependent_tids_witness:
  "fst (MergeToFinal scenarioDependent (Some 3) [''61''] [''61'']) = Return {Some 1} \<and>
   fst (MergeToFinal scenarioPut (Some 1) [''61''] [''61'']) = Return {}"
proof -
  have r3: "fst (MergeToFinal scenarioDependent (Some 3) [''61''] [''61'']) = Return {Some 1}"
    by (simp add: scenarioDependent_eq eval_defs)
  have o3: "set [''61''] = dom (valuesOf scenarioDependent (Some 3))"
    by (simp add: scenarioDependent_eq valuesOf_def)
  have r1: "fst (MergeToFinal scenarioPut (Some 1) [''61''] [''61'']) = Return {}"
    by (simp add: scenarioPut_eq eval_defs)
  have o1: "set [''61''] = dom (valuesOf scenarioPut (Some 1))"
    by (simp add: scenarioPut_eq valuesOf_def)
  show ?thesis
    using MergeToFinal_dependent_tids [OF r3 o3] MergeToFinal_dependent_tids [OF r1 o1] r3 r1
    by simp
qed

text \<open>Transaction 3 reads the key for the first time, at version 1; transaction 2 reads its own entry again.\<close>

theorem Get_derives_fresh_entry_witness:
  "fst (Get scenarioStale (Some 3) [0x61]) =
     Return \<lparr>tid = Some 3, key = [0x61], val = [0x76], old = 1, new = 2, deleted = False,
             dirty = False\<rparr> \<and>
   finalVersion scenarioStale (Hex [0x61]) = 1 \<and>
   fst (Get scenarioStale (Some 2) [0x61]) =
     Return \<lparr>tid = Some 2, key = [0x61], val = [], old = 0, new = 1, deleted = False,
             dirty = False\<rparr>"
proof -
  have a: "valuesOf scenarioStale (Some 3) (Hex [0x61]) = None \<and>
      (finalVersionizedValue scenarioStale (Hex [0x61]) \<noteq> None \<or>
       storeReadable (storage scenarioStale [0x61]))"
    by (simp add: scenarioStale_eq eval_defs)
  have b: "valuesOf scenarioStale (Some 2) (Hex [0x61]) =
      Some \<lparr>tid = Some 2, key = [0x61], val = [], old = 0, new = 1, deleted = False,
             dirty = False\<rparr>"
    by (simp add: scenarioStale_eq eval_defs)
  have c: "fst (Get scenarioStale (Some 3) [0x61]) =
     Return \<lparr>tid = Some 3, key = [0x61], val = [0x76], old = 1, new = 2, deleted = False,
             dirty = False\<rparr>"
    by (simp add: scenarioStale_eq eval_defs)
  have d: "finalVersion scenarioStale (Hex [0x61]) = 1"
    by (simp add: scenarioStale_eq eval_defs)
  show ?thesis
    using Get_derives_fresh_entry [of scenarioStale 3 "[0x61]" "Some 2"] a b c d
    by simp
qed

text \<open>A put of the value the entry has, and a put of another value.\<close>

theorem Put_dirty_rule_witness:
  "fst (Put scenarioStale (Some 2) [0x61] []) =
     Return \<lparr>tid = Some 2, key = [0x61], val = [], old = 0, new = 1, deleted = False,
             dirty = False\<rparr> \<and>
   fst (Put scenarioStale (Some 2) [0x61] [0x78]) =
     Return \<lparr>tid = Some 2, key = [0x61], val = [0x78], old = 0, new = 1, deleted = False,
             dirty = True\<rparr>"
proof -
  have g: "Get scenarioStale (Some 2) [0x61] =
      (Return \<lparr>tid = Some 2, key = [0x61], val = [], old = 0, new = 1, deleted = False,
               dirty = False\<rparr>, scenarioStale)"
    by (simp add: scenarioStale_eq eval_defs)
  show ?thesis
    using Put_dirty_rule [OF g, of "[]"] Put_dirty_rule [OF g, of "[0x78]"] by simp
qed

text \<open>Purging transaction 1, and a transaction that has no map.\<close>

theorem Purge_discards_workspace_witness:
  "allVersionizedValues (Purge scenarioPut (Some 1)) (Some 1) = None \<and>
   fst (Get (Purge scenarioPut (Some 1)) (Some 1) [0x61]) =
     Return \<lparr>tid = Some 1, key = [0x61], val = [], old = 0, new = 1, deleted = False,
             dirty = False\<rparr> \<and>
   fst (Get (Purge scenarioPut (Some 1)) (Some 1) [0x61]) =
     fst (Get (exec (NewStagingTable emptyStorage) (OpGet (Some 2) [0x61])) (Some 1) [0x61]) \<and>
   Purge (Purge scenarioPut (Some 1)) (Some 1) = Purge scenarioPut (Some 1) \<and>
   Purge scenarioPut (Some 5) = scenarioPut \<and>
   Purge scenarioPut None = scenarioPut"
proof -
  let ?other = "exec (NewStagingTable emptyStorage) (OpGet (Some (2::nat)) [0x61])"
  have f: "finalVersionizedValue scenarioPut (Hex [0x61]) =
      Some \<lparr>tid = None, key = [0x61], val = [], old = 0, new = 0, deleted = False,
            dirty = False\<rparr>"
    by (simp add: scenarioPut_eq eval_defs)
  have o: "storage ?other = storage scenarioPut \<and>
      finalVersionizedValue ?other = finalVersionizedValue scenarioPut \<and>
      allVersionizedValues ?other (Some 1) = None"
    by (simp add: scenarioPut_eq eval_defs)
  have n: "allVersionizedValues scenarioPut (Some 5) = None"
    by (simp add: scenarioPut_eq)
  note purged = Purge_discards_workspace [of scenarioPut 1 "[0x61]" "Some 1"]
  have same: "fst (Get (Purge scenarioPut (Some 1)) (Some 1) [0x61]) = fst (Get ?other (Some 1) [0x61])"
    using purged [THEN conjunct2, THEN conjunct2, THEN conjunct2, THEN conjunct2, THEN conjunct1,
        rule_format, OF o]
    by simp
  show ?thesis
    using purged Purge_discards_workspace [of scenarioPut 5 "[0x61]" "Some 1"] f n same
    by (simp add: IncrVersionizedValueItem_def)
qed

text \<open>The reachable table \<open>scenarioStale\<close>.\<close>

theorem merge_finds_final_entries_witness:
  "dom (valuesOf scenarioStale (Some 2)) \<subseteq> dom (finalVersionizedValue scenarioStale) \<and>
   finalVersionizedValue scenarioStale ''61'' \<noteq> None \<and>
   fst (MergeToFinal scenarioStale (Some 2) [''61''] [''61'']) \<noteq> NilPanic"
  using merge_finds_final_entries [OF reachable_scenarioStale]
  by (simp add: scenarioStale_eq valuesOf_def)





text \<open>A store without the key, and a store that fails.\<close>

theorem store_not_found_and_store_failure_witness:
  "getAndIncrValueFromFinalVersionValue (NewStagingTable emptyStorage :: nat StagingTable) (Some 1)
       (Hex [0x61]) [0x61] =
     (Return \<lparr>tid = Some 1, key = [0x61], val = [], old = 0, new = 1, deleted = False,
              dirty = False\<rparr>,
      \<lparr>storage = emptyStorage, allVersionizedValues = Map.empty,
        finalVersionizedValue =
          [Hex [0x61] \<mapsto> \<lparr>tid = None, key = [0x61], val = [], old = 0, new = 0,
                           deleted = False, dirty = False\<rparr>]\<rparr>) \<and>
   fst (Put (NewStagingTable brokenStorage :: nat StagingTable) (Some 1) [0x61] [0x76]) =
     Fail (ErrOther ''io'') \<and>
   finalVersionizedValue (snd (Put (NewStagingTable brokenStorage :: nat StagingTable) (Some 1) [0x61] [0x76])) =
     Map.empty"
proof -
  have e: "finalVersionizedValue (NewStagingTable emptyStorage :: nat StagingTable) (Hex [0x61]) = None"
    by (simp add: NewStagingTable_def)
  have b: "finalVersionizedValue (NewStagingTable brokenStorage :: nat StagingTable) (Hex [0x61]) = None"
    by (simp add: NewStagingTable_def)
  show ?thesis
    using store_not_found_and_store_failure [OF e, of "Some 1" "[0x76]" False False]
      store_not_found_and_store_failure [OF b, of "Some 1" "[0x76]" False False]
    by (simp add: eval_defs)
qed

end
